theory Spec2Isabelle
  imports Main "HOL-Library.Word" "HOL-Library.Monad_Syntax" "HOL-Library.Sublist"
begin

section \<open>Replorer: restart of the file manager with restoration of the folder windows\<close>

text \<open>
  A shallow embedding of \<^verbatim>\<open>src/main.cpp\<close>. The program is a Windows program:
  \<^verbatim>\<open>wchar_t\<close> is a 16-bit code unit, \<^verbatim>\<open>long\<close> and \<^verbatim>\<open>DWORD\<close> have 32 bits.

  Every \<^verbatim>\<open>while\<close> loop of the source is a recursive function in the option monad
  (\<^theory_text>\<open>partial_function (option)\<close>): \<open>None\<close> is a loop that does not return, so
  that termination is a theorem about the model and not an assumption of it.
\<close>

subsection \<open>Wide characters and C strings\<close>

type_synonym wchar = "16 word"

type_synonym dword = "32 word"

text \<open>\<^verbatim>\<open>std::wstring\<close>: a sequence of code units (it may hold a NUL).\<close>

type_synonym wstring = "wchar list"

text \<open>
  \<^verbatim>\<open>const wchar_t*\<close>: \<open>None\<close> is the null pointer; \<open>Some buf\<close> points at the code
  units \<open>buf\<close>, which a terminating NUL follows in memory. The string the pointer
  denotes therefore ends at the first NUL of \<open>buf\<close>, or at its end.
\<close>

type_synonym wcstr = "wchar list option"

text \<open>The wide literals \<^verbatim>\<open>L'c'\<close> and \<^verbatim>\<open>L"..."\<close>.\<close>

abbreviation L :: "char \<Rightarrow> wchar" where
  "L c \<equiv> of_char c"

abbreviation LS :: "string \<Rightarrow> wchar list" where
  "LS s \<equiv> map of_char s"

text \<open>\<^verbatim>\<open>L'\\'\<close>, the native directory separator (code 0x5C).\<close>

abbreviation backslash :: wchar where
  "backslash \<equiv> 0x5C"

text \<open>
  \<^verbatim>\<open>*p\<close> for a pointer into a terminated buffer: at the end of the stored code units
  the terminator is read. \<^verbatim>\<open>p[k]\<close> is \<open>deref (drop k p)\<close>.
\<close>

definition deref :: "wchar list \<Rightarrow> wchar" where
  "deref p = (case p of [] \<Rightarrow> 0 | c # _ \<Rightarrow> c)"

subsection \<open>The C library's \<^verbatim>\<open>wcstol\<close>\<close>

text \<open>
  \<^verbatim>\<open>wcstol\<close> belongs to the C runtime, not to the repository. It is modelled after
  ISO C (7.29.4.1.2) in the "C" locale, for the base 16 of its only call: leading white
  space is skipped, one sign is accepted, then an optional \<^verbatim>\<open>0x\<close> prefix, then the
  longest run of hexadecimal digits. The result is the value (clamped to the range of a
  32-bit \<^verbatim>\<open>long\<close>) and the offset that \<^verbatim>\<open>*endptr\<close> gets from the start of the
  string; with no digit, no conversion is done: the value is 0 and \<^verbatim>\<open>*endptr\<close> is the
  start.
\<close>

definition iswspace :: "wchar \<Rightarrow> bool" where
  "iswspace c = (c = 0x20 \<or> (0x09 \<le> c \<and> c \<le> 0x0D))"

definition xdigit_value :: "wchar \<Rightarrow> nat option" where
  "xdigit_value c =
     (if L CHR ''0'' \<le> c \<and> c \<le> L CHR ''9'' then Some (unat c - unat (L CHR ''0''))
      else if L CHR ''a'' \<le> c \<and> c \<le> L CHR ''f'' then Some (unat c - unat (L CHR ''a'') + 10)
      else if L CHR ''A'' \<le> c \<and> c \<le> L CHR ''F'' then Some (unat c - unat (L CHR ''A'') + 10)
      else None)"

definition iswxdigit :: "wchar \<Rightarrow> bool" where
  "iswxdigit c = (xdigit_value c \<noteq> None)"

definition LONG_MAX :: int where
  "LONG_MAX = 2 ^ 31 - 1"

definition LONG_MIN :: int where
  "LONG_MIN = - (2 ^ 31)"

definition wcstol_16 :: "wchar list \<Rightarrow> int \<times> nat" where
  "wcstol_16 nptr =
     (let n_space = length (takeWhile iswspace nptr);
          s1 = drop n_space nptr;
          negative = (deref s1 = L CHR ''-'');
          n_sign = (if deref s1 = L CHR ''-'' \<or> deref s1 = L CHR ''+'' then 1 else 0);
          s2 = drop n_sign s1;
          n_prefix =
            (if deref s2 = L CHR ''0''
                \<and> (deref (drop 1 s2) = L CHR ''x'' \<or> deref (drop 1 s2) = L CHR ''X'')
                \<and> iswxdigit (deref (drop 2 s2))
             then 2 else 0);
          digits = takeWhile iswxdigit (drop n_prefix s2);
          magnitude = foldl (\<lambda>a d. 16 * a + int (the (xdigit_value d))) 0 digits
      in if digits = [] then (0, 0)
         else (if negative then max LONG_MIN (- magnitude) else min LONG_MAX magnitude,
               n_space + n_sign + n_prefix + length digits))"

subsection \<open>Path Codec: \<^verbatim>\<open>startsWith\<close> and \<^verbatim>\<open>urlToPath\<close>\<close>

text \<open>
  \<^verbatim>\<open>while (*prefix) { if (*s != *prefix) return false; ++s; ++prefix; } return true;\<close>
\<close>

partial_function (option) startsWith_loop :: "wchar list \<Rightarrow> wchar list \<Rightarrow> bool option" where
  "startsWith_loop s pfx =
     (if deref pfx \<noteq> 0 then
        (if deref s \<noteq> deref pfx then Some False
         else startsWith_loop (drop 1 s) (drop 1 pfx))
      else Some True)"

declare startsWith_loop.simps [code]

definition startsWith :: "wcstr \<Rightarrow> wcstr \<Rightarrow> bool option" where
  "startsWith s pfx =
     (case s of
        None \<Rightarrow> Some False
      | Some s' \<Rightarrow>
          (case pfx of
             None \<Rightarrow> Some False
           | Some pfx' \<Rightarrow> startsWith_loop s' pfx'))"

text \<open>
  The loop of \<^verbatim>\<open>urlToPath\<close> over the pointer \<open>p\<close>, with the output built so far.
  \<^verbatim>\<open>p[2]\<close> is read only when \<^verbatim>\<open>p[1]\<close> is not the terminator, so no read passes
  the terminator. \<^verbatim>\<open>hex\<close> is the array \<^verbatim>\<open>{ p[1], p[2], 0 }\<close>; \<^verbatim>\<open>end\<close> is never
  null after the call (\<open>end_off\<close> is its offset in \<^verbatim>\<open>hex\<close>), and \<^verbatim>\<open>(wchar_t)v\<close>
  keeps the low 16 bits of \<open>v\<close>.
\<close>

partial_function (option) urlToPath_loop :: "wchar list \<Rightarrow> wstring \<Rightarrow> wstring option" where
  "urlToPath_loop p out =
     (if deref p \<noteq> 0 then
        (if deref p = L CHR ''/'' then urlToPath_loop (drop 1 p) (out @ [backslash])
         else if deref p = L CHR ''%'' \<and> deref (drop 1 p) \<noteq> 0 \<and> deref (drop 2 p) \<noteq> 0 then
           (let hex = [deref (drop 1 p), deref (drop 2 p)] in
            case wcstol_16 hex of
              (v, end_off) \<Rightarrow>
                if deref (drop end_off hex) = 0
                then urlToPath_loop (drop 3 p) (out @ [word_of_int v])
                else urlToPath_loop (drop 1 p) (out @ [deref p]))
         else urlToPath_loop (drop 1 p) (out @ [deref p]))
      else Some out)"

declare urlToPath_loop.simps [code]

definition urlToPath :: "wcstr \<Rightarrow> wstring option" where
  "urlToPath url =
     (case url of
        None \<Rightarrow> Some []
      | Some s \<Rightarrow>
          do {
            local_file \<leftarrow> startsWith url (Some (LS ''file:///''));
            if \<not> local_file then Some []
            else urlToPath_loop (drop 8 s) []
          })"

subsection \<open>The calls to the operating system\<close>

text \<open>
  The program acts on the world only through calls of the Win32 and COM interfaces. A run
  is modelled by the sequence of these calls, in program order. A call on a window object
  carries the index of the window, a call on a process handle the process id the handle
  was opened for.
\<close>

datatype event =
    CoInitializeEx
  | CoCreateInstance
  | get_Count
  | Item int
  | QueryInterface int
  | get_LocationURL int
  | SysFreeString int
  | Release_app int
  | Release_disp int
  | Release_sw
  | CoUninitialize
  | CreateToolhelp32Snapshot
  | Process32FirstW
  | Process32NextW
  | OpenProcess dword
  | TerminateProcess dword nat
  | WaitForSingleObject dword nat
  | CloseHandle_process dword
  | CloseHandle_snap
  | ShellExecuteW wstring
  | Sleep nat

text \<open>
  What the calls answer is the environment of a run. A window object answers
  \<^verbatim>\<open>get_LocationURL\<close> with a string, or not (\<open>None\<close>: the call fails or yields a
  null \<^verbatim>\<open>BSTR\<close>); a dispatch object answers \<^verbatim>\<open>QueryInterface\<close> with a window
  object, or not; the window collection answers \<^verbatim>\<open>get_Count\<close> and \<^verbatim>\<open>Item\<close>,
  or not.
\<close>

datatype web_browser_app = WebBrowserApp (LocationURL: "wchar list option")

datatype dispatch = Dispatch (as_WebBrowserApp: "web_browser_app option")

record shell_windows =
  Count :: "int option"
  Item_at :: "int \<Rightarrow> dispatch option"

record PROCESSENTRY32W =
  th32ProcessID :: dword
  szExeFile :: "wchar list"

record environment =
  CoInitializeEx_ok :: bool
  ShellWindows :: "shell_windows option"
  Toolhelp32Snapshot :: "PROCESSENTRY32W list option"
  OpenProcess_ok :: "dword \<Rightarrow> bool"

subsection \<open>Window Enumerator: \<^verbatim>\<open>collectOpenFolderPaths\<close>\<close>

text \<open>The body of the loop, for the window of index \<open>i\<close>.\<close>

definition collectOpenFolderPaths_item ::
  "shell_windows \<Rightarrow> int \<Rightarrow> wstring list \<Rightarrow> event list \<Rightarrow> (wstring list \<times> event list) option" where
  "collectOpenFolderPaths_item sw i out tr =
     (case Item_at sw i of
        None \<Rightarrow> Some (out, tr @ [Item i])
      | Some disp \<Rightarrow>
          (case as_WebBrowserApp disp of
             None \<Rightarrow> Some (out, tr @ [Item i, QueryInterface i, Release_disp i])
           | Some app \<Rightarrow>
               (case LocationURL app of
                  None \<Rightarrow>
                    Some (out, tr @ [Item i, QueryInterface i, get_LocationURL i,
                                     Release_app i, Release_disp i])
                | Some burl \<Rightarrow>
                    do {
                      p \<leftarrow> urlToPath (Some burl);
                      Some (if p \<noteq> [] then out @ [p] else out,
                            tr @ [Item i, QueryInterface i, get_LocationURL i,
                                  SysFreeString i, Release_app i, Release_disp i])
                    })))"

text \<open>\<^verbatim>\<open>long i = 0; while (i < count) { ...; ++i; }\<close> (no overflow: \<open>i < count\<close>).\<close>

partial_function (option) collectOpenFolderPaths_loop ::
  "shell_windows \<Rightarrow> int \<Rightarrow> int \<Rightarrow> wstring list \<Rightarrow> event list \<Rightarrow> (wstring list \<times> event list) option" where
  "collectOpenFolderPaths_loop sw count i out tr =
     (if i < count then
        do {
          (out', tr') \<leftarrow> collectOpenFolderPaths_item sw i out tr;
          collectOpenFolderPaths_loop sw count (i + 1) out' tr'
        }
      else Some (out, tr))"

declare collectOpenFolderPaths_loop.simps [code]

text \<open>The container \<open>out\<close> is passed by reference and cleared first.\<close>

definition collectOpenFolderPaths ::
  "environment \<Rightarrow> wstring list \<Rightarrow> event list \<Rightarrow> (wstring list \<times> event list) option" where
  "collectOpenFolderPaths env out tr =
     (let cleared = [];
          needUninit = CoInitializeEx_ok env;
          tr1 = tr @ [CoInitializeEx, CoCreateInstance]
      in do {
        (out', tr2) \<leftarrow>
          (case ShellWindows env of
             None \<Rightarrow> Some (cleared, tr1)
           | Some sw \<Rightarrow>
               do {
                 (out', tr') \<leftarrow>
                   (case Count sw of
                      None \<Rightarrow> Some (cleared, tr1 @ [get_Count])
                    | Some count \<Rightarrow>
                        collectOpenFolderPaths_loop sw count 0 cleared (tr1 @ [get_Count]));
                 Some (out', tr' @ [Release_sw])
               });
        Some (out', if needUninit then tr2 @ [CoUninitialize] else tr2)
      })"

subsection \<open>Process Reaper: \<^verbatim>\<open>killAllExplorer\<close>\<close>

text \<open>
  \<^verbatim>\<open>lstrcmpiW\<close> belongs to the Win32 API, not to the repository. It is modelled as the
  comparison of the two strings, code unit by code unit, after folding the upper-case
  letters A to Z to lower case; the result is negative, zero or positive.
\<close>

definition towlower :: "wchar \<Rightarrow> wchar" where
  "towlower c = (if L CHR ''A'' \<le> c \<and> c \<le> L CHR ''Z'' then c + 0x20 else c)"

fun lstrcmpiW :: "wchar list \<Rightarrow> wchar list \<Rightarrow> int" where
  "lstrcmpiW [] [] = 0"
| "lstrcmpiW [] (y # ys) = (if y = 0 then 0 else - 1)"
| "lstrcmpiW (x # xs) [] = (if x = 0 then 0 else 1)"
| "lstrcmpiW (x # xs) (y # ys) =
     (if towlower x < towlower y then - 1
      else if towlower y < towlower x then 1
      else if x = 0 then 0
      else lstrcmpiW xs ys)"

text \<open>The body of the \<^verbatim>\<open>do\<close> loop, for the snapshot entry \<open>pe\<close>.\<close>

definition killAllExplorer_entry :: "environment \<Rightarrow> PROCESSENTRY32W \<Rightarrow> event list \<Rightarrow> event list" where
  "killAllExplorer_entry env pe tr =
     (if lstrcmpiW (szExeFile pe) (LS ''explorer.exe'') = 0 then
        (if OpenProcess_ok env (th32ProcessID pe)
         then tr @ [OpenProcess (th32ProcessID pe),
                    TerminateProcess (th32ProcessID pe) 0,
                    WaitForSingleObject (th32ProcessID pe) 2000,
                    CloseHandle_process (th32ProcessID pe)]
         else tr @ [OpenProcess (th32ProcessID pe)])
      else tr)"

text \<open>
  \<^verbatim>\<open>do { ... } while (Process32NextW(snap, &pe));\<close> where \<open>pe\<close> is the current entry
  and \<open>rest\<close> the entries of the snapshot after it: \<^verbatim>\<open>Process32NextW\<close> fails when
  none is left.
\<close>

partial_function (option) killAllExplorer_loop ::
  "environment \<Rightarrow> PROCESSENTRY32W \<Rightarrow> PROCESSENTRY32W list \<Rightarrow> event list \<Rightarrow> event list option" where
  "killAllExplorer_loop env pe rest tr =
     (case rest of
        [] \<Rightarrow> Some (killAllExplorer_entry env pe tr @ [Process32NextW])
      | pe' # rest' \<Rightarrow>
          killAllExplorer_loop env pe' rest' (killAllExplorer_entry env pe tr @ [Process32NextW]))"

declare killAllExplorer_loop.simps [code]

text \<open>
  \<open>Toolhelp32Snapshot env = None\<close>: \<^verbatim>\<open>INVALID_HANDLE_VALUE\<close>.
  \<^verbatim>\<open>Process32FirstW\<close> fails on a snapshot with no entry.
\<close>

definition killAllExplorer :: "environment \<Rightarrow> event list \<Rightarrow> event list option" where
  "killAllExplorer env tr =
     (case Toolhelp32Snapshot env of
        None \<Rightarrow> Some (tr @ [CreateToolhelp32Snapshot])
      | Some snap \<Rightarrow>
          (case snap of
             [] \<Rightarrow> Some (tr @ [CreateToolhelp32Snapshot, Process32FirstW, CloseHandle_snap])
           | pe # rest \<Rightarrow>
               do {
                 tr' \<leftarrow> killAllExplorer_loop env pe rest
                          (tr @ [CreateToolhelp32Snapshot, Process32FirstW]);
                 Some (tr' @ [CloseHandle_snap])
               }))"

subsection \<open>Folder Replay: \<^verbatim>\<open>reopenFolders\<close>\<close>

text \<open>
  \<^verbatim>\<open>size_t i = 0; while (i < paths.size()) { ShellExecuteW(..., paths[i].c_str(), ...);
  Sleep(100); ++i; }\<close> The index is in range where \<open>paths ! i\<close> is read.
\<close>

partial_function (option) reopenFolders_loop ::
  "wstring list \<Rightarrow> nat \<Rightarrow> event list \<Rightarrow> event list option" where
  "reopenFolders_loop paths i tr =
     (if i < length paths then
        reopenFolders_loop paths (i + 1) (tr @ [ShellExecuteW (paths ! i), Sleep 100])
      else Some tr)"

declare reopenFolders_loop.simps [code]

definition reopenFolders :: "wstring list \<Rightarrow> event list \<Rightarrow> event list option" where
  "reopenFolders paths tr = reopenFolders_loop paths 0 tr"

subsection \<open>Orchestrator: \<^verbatim>\<open>wmain\<close>\<close>

text \<open>
  The result of a run is the exit code and the calls made, in order. The results of
  \<^verbatim>\<open>TerminateProcess\<close>, \<^verbatim>\<open>WaitForSingleObject\<close> and \<^verbatim>\<open>ShellExecuteW\<close> are not read
  by the program, so a run does not depend on them.
\<close>

definition wmain :: "environment \<Rightarrow> (int \<times> event list) option" where
  "wmain env =
     do {
       (opened, tr1) \<leftarrow> collectOpenFolderPaths env [] [];
       tr2 \<leftarrow> killAllExplorer env tr1;
       tr3 \<leftarrow> (if opened \<noteq> [] then reopenFolders opened tr2 else Some tr2);
       Some (0, tr3)
     }"

text \<open>The graphical entry points hand the exit code of \<^verbatim>\<open>wmain\<close> on.\<close>

definition wWinMain :: "environment \<Rightarrow> (int \<times> event list) option" where
  "wWinMain env = wmain env"

definition WinMain :: "environment \<Rightarrow> (int \<times> event list) option" where
  "WinMain env = wmain env"

section \<open>The vocabulary of the specification\<close>

text \<open>
  The definitions of this section are not code of the repository. They name what the
  specification speaks of, so that the properties of the code can be stated against them.
\<close>

subsection \<open>The reference encoder of the round trip\<close>

text \<open>
  Modelled from the spec: the reference encoder is no part of the repository. It maps
  the native separator to the segment separator, writes a reserved code unit as a percent
  sign and two hexadecimal digits, and copies every other code unit; the result follows
  the scheme prefix. Which code units are reserved is left open (a parameter).
\<close>

definition hex_digit :: "nat \<Rightarrow> wchar" where
  "hex_digit n = LS ''0123456789ABCDEF'' ! n"

definition encode_unit :: "(wchar \<Rightarrow> bool) \<Rightarrow> wchar \<Rightarrow> wchar list" where
  "encode_unit reserved c =
     (if c = backslash then [L CHR ''/'']
      else if reserved c
      then [L CHR ''%'', hex_digit (unat c div 16 mod 16), hex_digit (unat c mod 16)]
      else [c])"

definition encode :: "(wchar \<Rightarrow> bool) \<Rightarrow> wstring \<Rightarrow> wchar list" where
  "encode reserved path = LS ''file:///'' @ concat (map (encode_unit reserved) path)"

subsection \<open>Real folders\<close>

text \<open>
  The folder a window stands for: its location identifier is present and decodes to a
  path that is not empty.
\<close>

definition real_folder :: "shell_windows \<Rightarrow> int \<Rightarrow> wstring option" where
  "real_folder sw i =
     do {
       disp \<leftarrow> Item_at sw i;
       app \<leftarrow> as_WebBrowserApp disp;
       location \<leftarrow> LocationURL app;
       path \<leftarrow> urlToPath (Some location);
       if path = [] then None else Some path
     }"

text \<open>The real folders of the window collection, by index from 0.\<close>

definition real_folders :: "environment \<Rightarrow> wstring list" where
  "real_folders env =
     (case ShellWindows env of
        None \<Rightarrow> []
      | Some sw \<Rightarrow>
          (case Count sw of
             None \<Rightarrow> []
           | Some count \<Rightarrow> List.map_filter (real_folder sw) [0..count - 1]))"

subsection \<open>Matching processes and the calls on them\<close>

text \<open>Equality of two C strings up to the case of the letters A to Z.\<close>

definition same_ignoring_case :: "wchar list \<Rightarrow> wchar list \<Rightarrow> bool" where
  "same_ignoring_case a b =
     (map towlower (takeWhile (\<lambda>c. c \<noteq> 0) a) = map towlower (takeWhile (\<lambda>c. c \<noteq> 0) b))"

definition is_explorer :: "PROCESSENTRY32W \<Rightarrow> bool" where
  "is_explorer pe = same_ignoring_case (szExeFile pe) (LS ''explorer.exe'')"

text \<open>The process ids a run asked to open, and those it asked to terminate, in order.\<close>

fun opened_pids :: "event list \<Rightarrow> dword list" where
  "opened_pids [] = []"
| "opened_pids (OpenProcess pid # tr) = pid # opened_pids tr"
| "opened_pids (_ # tr) = opened_pids tr"

fun terminated_pids :: "event list \<Rightarrow> dword list" where
  "terminated_pids [] = []"
| "terminated_pids (TerminateProcess pid code # tr) = pid # terminated_pids tr"
| "terminated_pids (_ # tr) = terminated_pids tr"

text \<open>The calls of one round of the \<^verbatim>\<open>do\<close> loop, and of the whole Process Reaper.\<close>

definition entry_calls :: "environment \<Rightarrow> PROCESSENTRY32W \<Rightarrow> event list" where
  "entry_calls env pe = killAllExplorer_entry env pe [] @ [Process32NextW]"

definition reaper_calls :: "environment \<Rightarrow> event list" where
  "reaper_calls env =
     (case Toolhelp32Snapshot env of
        None \<Rightarrow> [CreateToolhelp32Snapshot]
      | Some snap \<Rightarrow>
          [CreateToolhelp32Snapshot, Process32FirstW] @ concat (map (entry_calls env) snap)
            @ [CloseHandle_snap])"

subsection \<open>The calls of Folder Replay\<close>

text \<open>One open request for each path, in order, each followed by the pacing delay.\<close>

definition replay_calls :: "wstring list \<Rightarrow> event list" where
  "replay_calls paths = concat (map (\<lambda>p. [ShellExecuteW p, Sleep 100]) paths)"

subsection \<open>The component a call belongs to\<close>

datatype component = Window_Enumerator | Process_Reaper | Folder_Replay

fun component_of :: "event \<Rightarrow> component" where
  "component_of CoInitializeEx = Window_Enumerator"
| "component_of CoCreateInstance = Window_Enumerator"
| "component_of get_Count = Window_Enumerator"
| "component_of (Item i) = Window_Enumerator"
| "component_of (QueryInterface i) = Window_Enumerator"
| "component_of (get_LocationURL i) = Window_Enumerator"
| "component_of (SysFreeString i) = Window_Enumerator"
| "component_of (Release_app i) = Window_Enumerator"
| "component_of (Release_disp i) = Window_Enumerator"
| "component_of Release_sw = Window_Enumerator"
| "component_of CoUninitialize = Window_Enumerator"
| "component_of CreateToolhelp32Snapshot = Process_Reaper"
| "component_of Process32FirstW = Process_Reaper"
| "component_of Process32NextW = Process_Reaper"
| "component_of (OpenProcess pid) = Process_Reaper"
| "component_of (TerminateProcess pid code) = Process_Reaper"
| "component_of (WaitForSingleObject pid ms) = Process_Reaper"
| "component_of (CloseHandle_process pid) = Process_Reaper"
| "component_of CloseHandle_snap = Process_Reaper"
| "component_of (ShellExecuteW path) = Folder_Replay"
| "component_of (Sleep ms) = Folder_Replay"

definition calls_of :: "component \<Rightarrow> event list \<Rightarrow> event list" where
  "calls_of c tr = filter (\<lambda>e. component_of e = c) tr"

subsection \<open>Two environments\<close>

text \<open>
  Six windows: two real folders (indices 0 and 4), a virtual window with an empty
  location, an index whose \<^verbatim>\<open>Item\<close> fails, an object that is no browser window, and a
  window whose location cannot be read. Four processes, two of them the file manager,
  of which one cannot be opened.
\<close>

definition example_windows :: shell_windows where
  "example_windows =
     \<lparr> Count = Some 6,
       Item_at = (\<lambda>i.
         if i = 0
         then Some (Dispatch (Some (WebBrowserApp (Some (LS ''file:///C:/Users/A/Documents'')))))
         else if i = 1 then Some (Dispatch (Some (WebBrowserApp (Some []))))
         else if i = 2 then None
         else if i = 3 then Some (Dispatch None)
         else if i = 4
         then Some (Dispatch (Some (WebBrowserApp (Some (LS ''file:///C:/Projects'')))))
         else if i = 5 then Some (Dispatch (Some (WebBrowserApp None)))
         else None) \<rparr>"

definition example_snapshot :: "PROCESSENTRY32W list" where
  "example_snapshot =
     [\<lparr> th32ProcessID = 4, szExeFile = LS ''System'' \<rparr>,
      \<lparr> th32ProcessID = 1204, szExeFile = LS ''EXPLORER.EXE'' \<rparr>,
      \<lparr> th32ProcessID = 2000, szExeFile = LS ''notepad.exe'' \<rparr>,
      \<lparr> th32ProcessID = 3000, szExeFile = LS ''explorer.exe'' \<rparr>]"

definition example_environment :: environment where
  "example_environment =
     \<lparr> CoInitializeEx_ok = True,
       ShellWindows = Some example_windows,
       Toolhelp32Snapshot = Some example_snapshot,
       OpenProcess_ok = (\<lambda>pid. pid \<noteq> 3000) \<rparr>"

text \<open>Only a virtual window is open, and one file manager process runs.\<close>

definition virtual_only_environment :: environment where
  "virtual_only_environment =
     \<lparr> CoInitializeEx_ok = True,
       ShellWindows =
         Some \<lparr> Count = Some 1,
                Item_at = (\<lambda>i. Some (Dispatch (Some (WebBrowserApp (Some []))))) \<rparr>,
       Toolhelp32Snapshot = Some [\<lparr> th32ProcessID = 1204, szExeFile = LS ''explorer.exe'' \<rparr>],
       OpenProcess_ok = (\<lambda>pid. True) \<rparr>"

section \<open>Properties\<close>

subsection \<open>Path Codec\<close>

lemma deref_Nil [simp]: "deref [] = 0"
  by (simp add: deref_def)

lemma deref_Cons [simp]: "deref (c # cs) = c"
  by (simp add: deref_def)

lemma deref_neq0_iff: "deref p \<noteq> 0 \<longleftrightarrow> (\<exists>c cs. p = c # cs \<and> c \<noteq> 0)"
  by (cases p) auto

lemma startsWith_loop_prefix:
  "0 \<notin> set pfx \<Longrightarrow> startsWith_loop s pfx = Some (prefix pfx s)"
proof (induction pfx arbitrary: s)
  case Nil
  then show ?case by (subst startsWith_loop.simps) simp
next
  case (Cons c cs)
  then have c: "c \<noteq> 0" and cs: "0 \<notin> set cs" by auto
  show ?case
  proof (cases s)
    case Nil
    with c show ?thesis by (subst startsWith_loop.simps) auto
  next
    case (Cons x xs)
    with c Cons.IH [OF cs, of xs] show ?thesis
      by (subst startsWith_loop.simps) auto
  qed
qed

lemma startsWith_file_scheme:
  "startsWith (Some s) (Some (LS ''file:///'')) = Some (prefix (LS ''file:///'') s)"
  unfolding startsWith_def by (simp add: startsWith_loop_prefix)

lemma urlToPath_Some:
  "urlToPath (Some s) =
     (if prefix (LS ''file:///'') s then urlToPath_loop (drop 8 s) [] else Some [])"
  unfolding urlToPath_def option.case startsWith_file_scheme by simp

lemma urlToPath_None: "urlToPath None = Some []"
  by (simp add: urlToPath_def)

lemma urlToPath_prefixed:
  "urlToPath (Some (LS ''file:///'' @ r)) = urlToPath_loop r []"
proof -
  have "drop 8 (LS ''file:///'' @ r) = r" by simp
  moreover have "prefix (LS ''file:///'') (LS ''file:///'' @ r)" by (rule prefixI) simp
  ultimately show ?thesis unfolding urlToPath_Some by (simp only: if_True)
qed

text \<open>Hexadecimal digits are no white space, no sign and none of the characters the loop tests for.\<close>

lemma iswxdigit_facts:
  assumes "iswxdigit c"
  shows "c \<noteq> 0" "\<not> iswspace c" "c \<noteq> L CHR ''-''" "c \<noteq> L CHR ''+''"
    "c \<noteq> L CHR ''x''" "c \<noteq> L CHR ''X''" "c \<noteq> L CHR ''%''" "c \<noteq> L CHR ''/''"
  using assms
  by (auto simp: iswxdigit_def xdigit_value_def iswspace_def word_le_nat_alt split: if_splits)

lemma xdigit_value_less: "xdigit_value c = Some n \<Longrightarrow> n < 16"
  by (auto simp: xdigit_value_def word_le_nat_alt split: if_splits)

lemma wcstol_16_two_digits:
  assumes "xdigit_value h1 = Some n1" "xdigit_value h2 = Some n2"
  shows "wcstol_16 [h1, h2] = (int (16 * n1 + n2), 2)"
proof -
  have x1: "iswxdigit h1" and x2: "iswxdigit h2" using assms by (simp_all add: iswxdigit_def)
  have "n1 < 16" "n2 < 16" using assms by (auto dest: xdigit_value_less)
  then have "min LONG_MAX (16 * int n1 + int n2) = 16 * int n1 + int n2"
    by (simp add: LONG_MAX_def)
  then show ?thesis
    using assms x1 x2 iswxdigit_facts [OF x1] iswxdigit_facts [OF x2]
    by (simp add: wcstol_16_def)
qed


lemma urlToPath_loop_end: "deref p = 0 \<Longrightarrow> urlToPath_loop p out = Some out"
  by (subst urlToPath_loop.simps) simp

lemma urlToPath_loop_slash:
  "urlToPath_loop (L CHR ''/'' # cs) out = urlToPath_loop cs (out @ [backslash])"
  by (subst urlToPath_loop.simps) simp

lemma urlToPath_loop_plain:
  "c \<noteq> 0 \<Longrightarrow> c \<noteq> L CHR ''/'' \<Longrightarrow> c \<noteq> L CHR ''%'' \<Longrightarrow>
   urlToPath_loop (c # cs) out = urlToPath_loop cs (out @ [c])"
  by (subst urlToPath_loop.simps) simp

lemma urlToPath_loop_percent_hex:
  assumes "xdigit_value h1 = Some n1" "xdigit_value h2 = Some n2"
  shows "urlToPath_loop (L CHR ''%'' # h1 # h2 # rest) out =
         urlToPath_loop rest (out @ [word_of_nat (16 * n1 + n2)])"
proof -
  have nz: "h1 \<noteq> 0" "h2 \<noteq> 0"
    using assms iswxdigit_facts(1) by (auto simp: iswxdigit_def)
  have w: "wcstol_16 [h1, h2] = (int (16 * n1 + n2), 2)"
    using assms by (rule wcstol_16_two_digits)
  have c: "word_of_int (int (16 * n1 + n2)) = (word_of_nat (16 * n1 + n2) :: wchar)"
    by simp
  show ?thesis
    by (subst urlToPath_loop.simps) (simp add: nz w c del: of_nat_add of_nat_mult)
qed

lemma urlToPath_loop_appends: "\<exists>r. \<forall>out. urlToPath_loop p out = Some (out @ r)"
proof (induction "length p" arbitrary: p rule: less_induct)
  case less
  show ?case
  proof (cases "deref p = 0")
    case True
    then have "\<forall>out. urlToPath_loop p out = Some (out @ [])"
      by (simp add: urlToPath_loop_end)
    then show ?thesis by blast
  next
    case False
    then obtain c cs where p: "p = c # cs" by (auto simp: deref_neq0_iff)
    have "length (drop 1 p) < length p" using p by simp
    then have "\<exists>r. \<forall>out. urlToPath_loop (drop 1 p) out = Some (out @ r)" by (rule less)
    then obtain r1 where r1: "\<And>out. urlToPath_loop (drop (Suc 0) p) out = Some (out @ r1)"
      by auto
    have "length (drop 3 p) < length p" using p by simp
    then have "\<exists>r. \<forall>out. urlToPath_loop (drop 3 p) out = Some (out @ r)" by (rule less)
    then obtain r3 where r3: "\<And>out. urlToPath_loop (drop 3 p) out = Some (out @ r3)"
      by blast
    let ?hex = "[deref (drop 1 p), deref (drop 2 p)]"
    let ?dec = "deref p = L CHR ''%'' \<and> deref (drop 1 p) \<noteq> 0 \<and> deref (drop 2 p) \<noteq> 0
                 \<and> deref (drop (snd (wcstol_16 ?hex)) ?hex) = 0"
    consider (slash) "deref p = L CHR ''/''"
      | (decoded) "deref p \<noteq> L CHR ''/''" ?dec
      | (literal) "deref p \<noteq> L CHR ''/''" "\<not> ?dec"
      by blast
    then show ?thesis
    proof cases
      case slash
      then have "\<forall>out. urlToPath_loop p out = Some (out @ backslash # r1)"
        using False by (subst urlToPath_loop.simps) (simp add: r1)
      then show ?thesis by blast
    next
      case decoded
      then have "\<forall>out. urlToPath_loop p out =
                   Some (out @ word_of_int (fst (wcstol_16 ?hex)) # r3)"
        using False by (subst urlToPath_loop.simps) (simp add: r3 Let_def case_prod_beta)
      then show ?thesis by blast
    next
      case literal
      then have "\<forall>out. urlToPath_loop p out = Some (out @ deref p # r1)"
        using False
        by (subst urlToPath_loop.simps) (auto simp add: r1 Let_def case_prod_beta)
      then show ?thesis by blast
    qed
  qed
qed

lemma urlToPath_loop_acc:
  "urlToPath_loop p out = map_option ((@) out) (urlToPath_loop p [])"
proof -
  obtain r where "\<forall>out. urlToPath_loop p out = Some (out @ r)"
    using urlToPath_loop_appends by blast
  then show ?thesis by simp
qed

lemma urlToPath_returns: "\<exists>r. urlToPath url = Some r"
proof (cases url)
  case None
  then show ?thesis by (simp add: urlToPath_None)
next
  case (Some s)
  obtain r where "urlToPath_loop (drop 8 s) [] = Some ([] @ r)"
    using urlToPath_loop_appends by blast
  with Some show ?thesis by (simp add: urlToPath_Some)
qed

lemma xdigit_value_hex_digit: "n < 16 \<Longrightarrow> xdigit_value (hex_digit n) = Some n"
proof -
  assume "n < 16"
  then have "n = 0 \<or> n = 1 \<or> n = 2 \<or> n = 3 \<or> n = 4 \<or> n = 5 \<or> n = 6 \<or> n = 7
      \<or> n = 8 \<or> n = 9 \<or> n = 10 \<or> n = 11 \<or> n = 12 \<or> n = 13 \<or> n = 14 \<or> n = 15"
    by arith
  then show ?thesis
    by (auto simp: hex_digit_def xdigit_value_def)
qed

lemma byte_of_nibbles:
  assumes "unat (c :: wchar) < 256"
  shows "word_of_nat (16 * (unat c div 16 mod 16) + unat c mod 16) = c"
proof -
  have "unat c div 16 mod 16 = unat c div 16" using assms by simp
  then have "16 * (unat c div 16 mod 16) + unat c mod 16 = unat c" by simp
  then show ?thesis by simp
qed

lemma urlToPath_loop_encoded:
  assumes "reserved (L CHR ''%'')" "reserved (L CHR ''/'')" "reserved 0"
    and "\<forall>c \<in> set path. reserved c \<longrightarrow> unat c < 256"
  shows "urlToPath_loop (concat (map (encode_unit reserved) path)) out = Some (out @ path)"
  using assms(4)
proof (induction path arbitrary: out)
  case Nil
  then show ?case by (simp add: urlToPath_loop_end)
next
  case (Cons c cs)
  then have IH: "\<And>out. urlToPath_loop (concat (map (encode_unit reserved) cs)) out = Some (out @ cs)"
    by simp
  consider (sep) "c = backslash" | (esc) "c \<noteq> backslash" "reserved c" | (lit) "c \<noteq> backslash" "\<not> reserved c"
    by blast
  then show ?case
  proof cases
    case sep
    then have "encode_unit reserved c = [L CHR ''/'']" by (simp add: encode_unit_def)
    then show ?thesis using sep by (simp add: urlToPath_loop_slash [simplified] IH)
  next
    case esc
    then have b: "unat c < 256" using Cons.prems by simp
    have n1: "xdigit_value (hex_digit (unat c div 16 mod 16)) = Some (unat c div 16 mod 16)"
      by (rule xdigit_value_hex_digit) simp
    have n2: "xdigit_value (hex_digit (unat c mod 16)) = Some (unat c mod 16)"
      by (rule xdigit_value_hex_digit) simp
    have "encode_unit reserved c =
          [L CHR ''%'', hex_digit (unat c div 16 mod 16), hex_digit (unat c mod 16)]"
      using esc by (simp add: encode_unit_def)
    then have "urlToPath_loop (concat (map (encode_unit reserved) (c # cs))) out =
          urlToPath_loop (L CHR ''%'' # hex_digit (unat c div 16 mod 16) # hex_digit (unat c mod 16)
            # concat (map (encode_unit reserved) cs)) out"
      by simp
    also have "\<dots> = urlToPath_loop (concat (map (encode_unit reserved) cs))
          (out @ [word_of_nat (16 * (unat c div 16 mod 16) + unat c mod 16)])"
      by (rule urlToPath_loop_percent_hex [OF n1 n2])
    also have "\<dots> = Some (out @ c # cs)"
      by (simp only: byte_of_nibbles [OF b] IH) simp
    finally show ?thesis .
  next
    case lit
    then have "c \<noteq> 0" "c \<noteq> L CHR ''/''" "c \<noteq> L CHR ''%''"
      using assms(1-3) by auto
    moreover have "encode_unit reserved c = [c]" using lit by (simp add: encode_unit_def)
    ultimately show ?thesis
      by (simp add: urlToPath_loop_plain IH)
  qed
qed

lemma percent_facts: "\<not> iswspace (L CHR ''%'')" "\<not> iswxdigit (L CHR ''%'')"
  by (simp_all add: iswspace_def iswxdigit_def xdigit_value_def)

lemma wcstol_16_percent_first: "wcstol_16 (L CHR ''%'' # xs) = (0, 0)"
  using percent_facts by (simp add: wcstol_16_def)

lemma wcstol_16_percent_second:
  assumes "x \<noteq> 0"
  shows "deref (drop (snd (wcstol_16 [x, L CHR ''%''])) [x, L CHR ''%'']) \<noteq> 0"
proof -
  have sp: "iswspace x \<Longrightarrow> x \<noteq> L CHR ''-'' \<and> x \<noteq> L CHR ''+'' \<and> \<not> iswxdigit x"
    by (auto simp: iswspace_def iswxdigit_def xdigit_value_def word_le_nat_alt)
  have sg: "x = L CHR ''-'' \<or> x = L CHR ''+'' \<Longrightarrow> \<not> iswxdigit x"
    by (auto simp: iswxdigit_def xdigit_value_def)
  show ?thesis
  proof (cases "iswspace x")
    case True
    with sp percent_facts assms show ?thesis by (simp add: wcstol_16_def)
  next
    case False
    show ?thesis
    proof (cases "x = L CHR ''-'' \<or> x = L CHR ''+''")
      case True
      with False sg percent_facts assms show ?thesis by (auto simp add: wcstol_16_def)
    next
      case no_sign: False
      show ?thesis
      proof (cases "iswxdigit x")
        case True
        with False no_sign percent_facts assms show ?thesis by (simp add: wcstol_16_def)
      next
        case no_digit: False
        with False no_sign percent_facts assms show ?thesis by (simp add: wcstol_16_def)
      qed
    qed
  qed
qed

lemma urlToPath_loop_before_percent:
  assumes "0 \<notin> set a"
  shows "urlToPath_loop (a @ L CHR ''%'' # r) out =
         urlToPath_loop a out \<bind> urlToPath_loop (L CHR ''%'' # r)"
  using assms
proof (induction "length a" arbitrary: a out rule: less_induct)
  case less
  show ?case
  proof (cases a)
    case Nil
    then show ?thesis by (simp add: urlToPath_loop_end)
  next
    case (Cons c cs)
    with less.prems have c0: "c \<noteq> 0" and cs0: "0 \<notin> set cs" by auto
    have IH: "urlToPath_loop (cs @ L CHR ''%'' # r) out' =
              urlToPath_loop cs out' \<bind> urlToPath_loop (L CHR ''%'' # r)" for out'
      using less.hyps [of cs out'] cs0 Cons by simp
    consider (slash) "c = L CHR ''/''" | (percent) "c = L CHR ''%''"
      | (plain) "c \<noteq> L CHR ''/''" "c \<noteq> L CHR ''%''"
      by blast
    then show ?thesis
    proof cases
      case slash
      then show ?thesis using Cons IH by (simp add: urlToPath_loop_slash [simplified])
    next
      case plain
      then show ?thesis using Cons IH c0 by (simp add: urlToPath_loop_plain)
    next
      case percent
      show ?thesis
      proof (cases cs)
        case Nil
        have "urlToPath_loop (L CHR ''%'' # L CHR ''%'' # r) out =
              urlToPath_loop (L CHR ''%'' # r) (out @ [L CHR ''%''])"
          by (subst urlToPath_loop.simps) (simp add: wcstol_16_percent_first [simplified])
        moreover have "urlToPath_loop [L CHR ''%''] out = Some (out @ [L CHR ''%''])"
          by (subst urlToPath_loop.simps) (simp add: urlToPath_loop_end)
        ultimately show ?thesis using Cons Nil percent by simp
      next
        case cs: (Cons x xs)
        with cs0 have x0: "x \<noteq> 0" and xs0: "0 \<notin> set xs" by auto
        show ?thesis
        proof (cases xs)
          case Nil
          have "urlToPath_loop (L CHR ''%'' # x # L CHR ''%'' # r) out =
                urlToPath_loop (x # L CHR ''%'' # r) (out @ [L CHR ''%''])"
            using wcstol_16_percent_second [OF x0]
            by (subst urlToPath_loop.simps) (simp add: x0 case_prod_beta)
          moreover have "urlToPath_loop [L CHR ''%'', x] out =
                urlToPath_loop [x] (out @ [L CHR ''%''])"
            by (subst urlToPath_loop.simps) (simp add: x0)
          ultimately show ?thesis using Cons cs Nil percent IH [of "out @ [L CHR ''%'']"] by simp
        next
          case xs: (Cons y ys)
          have IH3: "urlToPath_loop (ys @ L CHR ''%'' # r) out' =
              urlToPath_loop ys out' \<bind> urlToPath_loop (L CHR ''%'' # r)" for out'
            using less.hyps [of ys out'] xs0 Cons cs xs by simp
          let ?hex = "[x, y]"
          show ?thesis
          proof (cases "deref (drop (snd (wcstol_16 ?hex)) ?hex) = 0")
            case True
            have "urlToPath_loop (L CHR ''%'' # x # y # ys @ L CHR ''%'' # r) out =
                  urlToPath_loop (ys @ L CHR ''%'' # r) (out @ [word_of_int (fst (wcstol_16 ?hex))])"
              using True xs0 xs x0
              by (subst urlToPath_loop.simps) (simp add: case_prod_beta)
            moreover have "urlToPath_loop (L CHR ''%'' # x # y # ys) out =
                  urlToPath_loop ys (out @ [word_of_int (fst (wcstol_16 ?hex))])"
              using True xs0 xs x0
              by (subst urlToPath_loop.simps) (simp add: case_prod_beta)
            ultimately show ?thesis using Cons cs xs percent IH3 by simp
          next
            case False
            have "urlToPath_loop (L CHR ''%'' # x # y # ys @ L CHR ''%'' # r) out =
                  urlToPath_loop (x # y # ys @ L CHR ''%'' # r) (out @ [L CHR ''%''])"
              using False
              by (subst urlToPath_loop.simps) (simp add: case_prod_beta)
            moreover have "urlToPath_loop (L CHR ''%'' # x # y # ys) out =
                  urlToPath_loop (x # y # ys) (out @ [L CHR ''%''])"
              using False
              by (subst urlToPath_loop.simps) (simp add: case_prod_beta)
            ultimately show ?thesis using Cons cs xs percent IH [of "out @ [L CHR ''%'']"] by simp
          qed
        qed
      qed
    qed
  qed
qed

subsection \<open>Folder Replay and Process Reaper\<close>

lemma reopenFolders_loop_closed:
  "reopenFolders_loop paths i tr = Some (tr @ replay_calls (drop i paths))"
proof (induction "length paths - i" arbitrary: i tr)
  case 0
  then show ?case by (subst reopenFolders_loop.simps) (simp add: replay_calls_def)
next
  case (Suc n)
  then have i: "i < length paths" and n: "n = length paths - (i + 1)" by simp_all
  have "drop i paths = paths ! i # drop (i + 1) paths"
    using i by (simp add: Cons_nth_drop_Suc)
  then have "replay_calls (drop i paths) =
      [ShellExecuteW (paths ! i), Sleep 100] @ replay_calls (drop (i + 1) paths)"
    by (simp add: replay_calls_def)
  then show ?case
    using i Suc.hyps(1) [OF n] by (subst reopenFolders_loop.simps) simp
qed

lemma reopenFolders_closed: "reopenFolders paths tr = Some (tr @ replay_calls paths)"
  by (simp add: reopenFolders_def reopenFolders_loop_closed)

lemma killAllExplorer_entry_next:
  "killAllExplorer_entry env pe tr @ [Process32NextW] = tr @ entry_calls env pe"
  by (simp add: entry_calls_def killAllExplorer_entry_def)

lemma killAllExplorer_loop_closed:
  "killAllExplorer_loop env pe rest tr = Some (tr @ concat (map (entry_calls env) (pe # rest)))"
proof (induction rest arbitrary: pe tr)
  case Nil
  show ?case
    by (subst killAllExplorer_loop.simps) (simp add: killAllExplorer_entry_next)
next
  case (Cons pe' rest')
  show ?case
    by (subst killAllExplorer_loop.simps) (simp add: killAllExplorer_entry_next Cons.IH)
qed

lemma killAllExplorer_closed: "killAllExplorer env tr = Some (tr @ reaper_calls env)"
  by (simp add: killAllExplorer_def reaper_calls_def killAllExplorer_loop_closed
      split: option.split list.split)

lemma towlower_eq_0: "towlower c = 0 \<longleftrightarrow> c = 0"
proof -
  have "c + 0x20 \<noteq> 0" if "0x41 \<le> c" "c \<le> 0x5A"
  proof
    assume "c + 0x20 = 0"
    then have "c = - 0x20" by (simp add: eq_neg_iff_add_eq_0)
    with that show False by simp
  qed
  then show ?thesis by (auto simp: towlower_def)
qed

lemma lstrcmpiW_eq_0: "lstrcmpiW a b = 0 \<longleftrightarrow> same_ignoring_case a b"
proof (induction a b rule: lstrcmpiW.induct)
  case 1
  show ?case by (simp add: same_ignoring_case_def)
next
  case (2 y ys)
  show ?case by (simp add: same_ignoring_case_def)
next
  case (3 x xs)
  show ?case by (simp add: same_ignoring_case_def)
next
  case (4 x xs y ys)
  show ?case
  proof (cases "towlower x = towlower y")
    case False
    then have "towlower x < towlower y \<or> towlower y < towlower x" by auto
    moreover have "\<not> same_ignoring_case (x # xs) (y # ys)"
      using False towlower_eq_0 [of x] towlower_eq_0 [of y]
      by (auto simp: same_ignoring_case_def)
    ultimately show ?thesis by auto
  next
    case True
    then have xy: "x = 0 \<longleftrightarrow> y = 0" using towlower_eq_0 [of x] towlower_eq_0 [of y] by auto
    show ?thesis
    proof (cases "x = 0")
      case x0: True
      with xy True show ?thesis by (simp add: same_ignoring_case_def)
    next
      case x0: False
      with xy have "y \<noteq> 0" by simp
      with x0 True 4 show ?thesis by (simp add: same_ignoring_case_def)
    qed
  qed
qed

lemma opened_pids_append: "opened_pids (xs @ ys) = opened_pids xs @ opened_pids ys"
  by (induction xs rule: opened_pids.induct) simp_all

lemma terminated_pids_append:
  "terminated_pids (xs @ ys) = terminated_pids xs @ terminated_pids ys"
  by (induction xs rule: terminated_pids.induct) simp_all

lemma opened_pids_entry_calls:
  "opened_pids (entry_calls env pe) = (if is_explorer pe then [th32ProcessID pe] else [])"
  by (simp add: entry_calls_def killAllExplorer_entry_def is_explorer_def lstrcmpiW_eq_0)

lemma terminated_pids_entry_calls:
  "terminated_pids (entry_calls env pe) =
     (if is_explorer pe \<and> OpenProcess_ok env (th32ProcessID pe) then [th32ProcessID pe] else [])"
  by (simp add: entry_calls_def killAllExplorer_entry_def is_explorer_def lstrcmpiW_eq_0)

lemma opened_pids_snapshot:
  "opened_pids (concat (map (entry_calls env) snap)) = map th32ProcessID (filter is_explorer snap)"
  by (induction snap) (simp_all add: opened_pids_append opened_pids_entry_calls)

lemma terminated_pids_snapshot:
  "terminated_pids (concat (map (entry_calls env) snap)) =
     map th32ProcessID
       (filter (\<lambda>pe. is_explorer pe \<and> OpenProcess_ok env (th32ProcessID pe)) snap)"
  by (induction snap) (simp_all add: terminated_pids_append terminated_pids_entry_calls)

subsection \<open>Window Enumerator\<close>

lemma collectOpenFolderPaths_item_closed:
  "\<exists>calls. collectOpenFolderPaths_item sw i out tr =
       Some (case real_folder sw i of None \<Rightarrow> out | Some p \<Rightarrow> out @ [p], tr @ calls)
     \<and> calls_of Window_Enumerator calls = calls"
proof -
  have ret: "\<exists>r. urlToPath (Some u) = Some r" for u by (rule urlToPath_returns)
  show ?thesis
  proof (cases "Item_at sw i")
    case None
    then show ?thesis
      by (simp add: collectOpenFolderPaths_item_def real_folder_def calls_of_def)
  next
    case disp: (Some disp)
    show ?thesis
    proof (cases "as_WebBrowserApp disp")
      case None
      with disp show ?thesis
        by (simp add: collectOpenFolderPaths_item_def real_folder_def calls_of_def)
    next
      case app: (Some app)
      show ?thesis
      proof (cases "LocationURL app")
        case None
        with disp app show ?thesis
          by (simp add: collectOpenFolderPaths_item_def real_folder_def calls_of_def)
      next
        case (Some burl)
        obtain p where "urlToPath (Some burl) = Some p" using ret by blast
        with disp app Some show ?thesis
          by (simp add: collectOpenFolderPaths_item_def real_folder_def calls_of_def)
      qed
    qed
  qed
qed

lemma calls_of_append: "calls_of c (xs @ ys) = calls_of c xs @ calls_of c ys"
  by (simp add: calls_of_def)

lemma collectOpenFolderPaths_loop_closed:
  "\<exists>calls. collectOpenFolderPaths_loop sw count i out tr =
       Some (out @ List.map_filter (real_folder sw) [i..count - 1], tr @ calls)
     \<and> calls_of Window_Enumerator calls = calls"
proof (induction "nat (count - i)" arbitrary: i out tr)
  case 0
  then have "\<not> i < count" by simp
  then have "collectOpenFolderPaths_loop sw count i out tr = Some (out, tr)"
    by (subst collectOpenFolderPaths_loop.simps) simp
  moreover have "[i..count - 1] = []" using \<open>\<not> i < count\<close> by simp
  ultimately have "collectOpenFolderPaths_loop sw count i out tr =
       Some (out @ List.map_filter (real_folder sw) [i..count - 1], tr @ [])
     \<and> calls_of Window_Enumerator [] = []"
    by (simp add: map_filter_simps calls_of_def)
  then show ?case by blast
next
  case (Suc n)
  then have i: "i < count" and n: "n = nat (count - (i + 1))" by simp_all
  obtain c1 where c1: "collectOpenFolderPaths_item sw i out tr =
       Some (case real_folder sw i of None \<Rightarrow> out | Some p \<Rightarrow> out @ [p], tr @ c1)"
    and c1': "calls_of Window_Enumerator c1 = c1"
    using collectOpenFolderPaths_item_closed by blast
  let ?out = "case real_folder sw i of None \<Rightarrow> out | Some p \<Rightarrow> out @ [p]"
  obtain c2 where c2: "collectOpenFolderPaths_loop sw count (i + 1) ?out (tr @ c1) =
       Some (?out @ List.map_filter (real_folder sw) [i + 1..count - 1], (tr @ c1) @ c2)"
    and c2': "calls_of Window_Enumerator c2 = c2"
    using Suc.hyps(1) [OF n] by blast
  have "[i..count - 1] = i # [i + 1..count - 1]"
    using i by (simp add: upto_rec1)
  then have "out @ List.map_filter (real_folder sw) [i..count - 1] =
      ?out @ List.map_filter (real_folder sw) [i + 1..count - 1]"
    by (simp add: map_filter_simps split: option.split)
  moreover have "collectOpenFolderPaths_loop sw count i out tr =
      collectOpenFolderPaths_loop sw count (i + 1) ?out (tr @ c1)"
    using i by (subst collectOpenFolderPaths_loop.simps) (simp add: c1)
  ultimately have "collectOpenFolderPaths_loop sw count i out tr =
       Some (out @ List.map_filter (real_folder sw) [i..count - 1], tr @ (c1 @ c2))
     \<and> calls_of Window_Enumerator (c1 @ c2) = c1 @ c2"
    using c2 c1' c2' by (simp add: calls_of_append)
  then show ?case by blast
qed

lemma collectOpenFolderPaths_closed:
  "\<exists>calls. collectOpenFolderPaths env out tr = Some (real_folders env, tr @ calls)
     \<and> calls_of Window_Enumerator calls = calls"
proof (cases "ShellWindows env")
  case None
  then have "collectOpenFolderPaths env out tr =
      Some (real_folders env,
        tr @ ([CoInitializeEx, CoCreateInstance] @ (if CoInitializeEx_ok env then [CoUninitialize] else [])))"
    by (simp add: collectOpenFolderPaths_def real_folders_def)
  moreover have "calls_of Window_Enumerator
      ([CoInitializeEx, CoCreateInstance] @ (if CoInitializeEx_ok env then [CoUninitialize] else [])) =
      [CoInitializeEx, CoCreateInstance] @ (if CoInitializeEx_ok env then [CoUninitialize] else [])"
    by (simp add: calls_of_def)
  ultimately show ?thesis by blast
next
  case sw: (Some sw)
  show ?thesis
  proof (cases "Count sw")
    case None
    let ?calls = "[CoInitializeEx, CoCreateInstance, get_Count, Release_sw]
        @ (if CoInitializeEx_ok env then [CoUninitialize] else [])"
    have "collectOpenFolderPaths env out tr = Some (real_folders env, tr @ ?calls)"
      using sw None by (simp add: collectOpenFolderPaths_def real_folders_def)
    moreover have "calls_of Window_Enumerator ?calls = ?calls"
      by (simp add: calls_of_def)
    ultimately show ?thesis by blast
  next
    case (Some count)
    obtain c where c: "collectOpenFolderPaths_loop sw count 0 []
          (tr @ [CoInitializeEx, CoCreateInstance, get_Count]) =
        Some ([] @ List.map_filter (real_folder sw) [0..count - 1],
          (tr @ [CoInitializeEx, CoCreateInstance, get_Count]) @ c)"
      and c': "calls_of Window_Enumerator c = c"
      using collectOpenFolderPaths_loop_closed by blast
    let ?calls = "[CoInitializeEx, CoCreateInstance, get_Count] @ c @ [Release_sw]
        @ (if CoInitializeEx_ok env then [CoUninitialize] else [])"
    have "collectOpenFolderPaths env out tr = Some (real_folders env, tr @ ?calls)"
      using sw Some c by (simp add: collectOpenFolderPaths_def real_folders_def)
    moreover have "calls_of Window_Enumerator ?calls = ?calls"
      using c' by (simp add: calls_of_def)
    ultimately show ?thesis by blast
  qed
qed

subsection \<open>The orchestrator\<close>

lemma replay_calls_Nil: "replay_calls [] = []"
  by (simp add: replay_calls_def)

lemma wmain_closed:
  "\<exists>capture. collectOpenFolderPaths env [] [] = Some (real_folders env, capture)
     \<and> calls_of Window_Enumerator capture = capture
     \<and> wmain env = Some (0, capture @ reaper_calls env @ replay_calls (real_folders env))"
proof -
  obtain capture where c: "collectOpenFolderPaths env [] [] = Some (real_folders env, [] @ capture)"
    and c': "calls_of Window_Enumerator capture = capture"
    using collectOpenFolderPaths_closed by blast
  have "wmain env = Some (0, capture @ reaper_calls env @ replay_calls (real_folders env))"
    using c by (simp add: wmain_def killAllExplorer_closed reopenFolders_closed replay_calls_Nil)
  with c c' show ?thesis by simp
qed

lemma calls_of_id_iff: "calls_of c tr = tr \<longleftrightarrow> (\<forall>e \<in> set tr. component_of e = c)"
  by (simp add: calls_of_def filter_id_conv)

lemma calls_of_other:
  assumes "calls_of c tr = tr" "c' \<noteq> c"
  shows "calls_of c' tr = []"
proof -
  have "\<forall>e \<in> set tr. component_of e = c"
    using assms(1) by (simp add: calls_of_id_iff)
  with assms(2) show ?thesis
    by (auto simp: calls_of_def filter_empty_conv)
qed

lemma count_list_other:
  assumes "calls_of c tr = tr" "component_of e \<noteq> c"
  shows "count_list tr e = 0"
proof -
  have "\<forall>e \<in> set tr. component_of e = c"
    using assms(1) by (simp add: calls_of_id_iff)
  with assms(2) have "e \<notin> set tr" by auto
  then show ?thesis by (simp add: count_list_0_iff)
qed

lemma calls_of_Nil: "calls_of c [] = []"
  by (simp add: calls_of_def)

lemma calls_of_entry_calls: "calls_of Process_Reaper (entry_calls env pe) = entry_calls env pe"
  by (simp add: calls_of_def entry_calls_def killAllExplorer_entry_def)

lemma calls_of_snapshot:
  "calls_of Process_Reaper (concat (map (entry_calls env) snap)) = concat (map (entry_calls env) snap)"
  by (induction snap) (simp_all add: calls_of_append calls_of_entry_calls calls_of_Nil)

lemma calls_of_reaper_calls: "calls_of Process_Reaper (reaper_calls env) = reaper_calls env"
proof (cases "Toolhelp32Snapshot env")
  case None
  then show ?thesis by (simp add: reaper_calls_def calls_of_def)
next
  case (Some snap)
  have "calls_of Process_Reaper [CreateToolhelp32Snapshot, Process32FirstW] =
      [CreateToolhelp32Snapshot, Process32FirstW]"
    and "calls_of Process_Reaper [CloseHandle_snap] = [CloseHandle_snap]"
    by (simp_all add: calls_of_def)
  with Some show ?thesis
    by (simp only: reaper_calls_def option.case calls_of_append calls_of_snapshot)
qed

lemma count_snapshot_entry_calls: "count_list (entry_calls env pe) CreateToolhelp32Snapshot = 0"
  by (simp add: entry_calls_def killAllExplorer_entry_def)

lemma count_snapshot_snapshot:
  "count_list (concat (map (entry_calls env) snap)) CreateToolhelp32Snapshot = 0"
  by (induction snap) (simp_all add: count_snapshot_entry_calls)

lemma count_snapshot_reaper_calls: "count_list (reaper_calls env) CreateToolhelp32Snapshot = 1"
  by (cases "Toolhelp32Snapshot env") (simp_all add: reaper_calls_def count_snapshot_snapshot)

lemma calls_of_replay_calls: "calls_of Folder_Replay (replay_calls paths) = replay_calls paths"
  by (induction paths) (simp_all add: replay_calls_def calls_of_def)

section \<open>The claims\<close>

text \<open>
  C1. For every list of paths, Folder Replay issues one open request for each path, in
  the order of the list, each followed by the pacing delay of 100 ms and by nothing else;
  and in every run of the orchestrator the open requests are exactly these calls for the
  captured list: none when the list is empty, \<open>N\<close> for \<open>N\<close> paths, in capture order,
  with the delay between consecutive requests. No call of Folder Replay precedes them.
\<close>

theorem wmain_replays_captured:
  "reopenFolders paths tr = Some (tr @ concat (map (\<lambda>p. [ShellExecuteW p, Sleep 100]) paths))
   \<and> (\<exists>opened capture before.
         collectOpenFolderPaths env [] [] = Some (opened, capture)
         \<and> wmain env = Some (0, before @ concat (map (\<lambda>p. [ShellExecuteW p, Sleep 100]) opened))
         \<and> calls_of Folder_Replay before = [])"
proof -
  obtain capture where c: "collectOpenFolderPaths env [] [] = Some (real_folders env, capture)"
    and c': "calls_of Window_Enumerator capture = capture"
    and w: "wmain env = Some (0, capture @ reaper_calls env @ replay_calls (real_folders env))"
    using wmain_closed by blast
  have "calls_of Folder_Replay (capture @ reaper_calls env) = []"
    using calls_of_other [OF c'] calls_of_other [OF calls_of_reaper_calls]
    by (simp add: calls_of_append)
  moreover have "wmain env =
      Some (0, (capture @ reaper_calls env)
               @ concat (map (\<lambda>p. [ShellExecuteW p, Sleep 100]) (real_folders env)))"
    using w by (simp add: replay_calls_def)
  ultimately have "\<exists>opened capture before.
         collectOpenFolderPaths env [] [] = Some (opened, capture)
         \<and> wmain env = Some (0, before @ concat (map (\<lambda>p. [ShellExecuteW p, Sleep 100]) opened))
         \<and> calls_of Folder_Replay before = []"
    using c by blast
  moreover have "reopenFolders paths tr =
      Some (tr @ concat (map (\<lambda>p. [ShellExecuteW p, Sleep 100]) paths))"
    using reopenFolders_closed [of paths tr] by (simp add: replay_calls_def)
  ultimately show ?thesis by blast
qed

theorem wmain_replays_captured_witness:
  "reopenFolders [] [] = Some []
   \<and> (\<exists>before.
         wmain example_environment =
           Some (0, before @
             [ShellExecuteW (LS ''C:'' @ [backslash] @ LS ''Users'' @ [backslash] @ LS ''A''
                             @ [backslash] @ LS ''Documents''), Sleep 100,
              ShellExecuteW (LS ''C:'' @ [backslash] @ LS ''Projects''), Sleep 100])
         \<and> calls_of Folder_Replay before = [])"
proof -
  have r: "real_folders example_environment =
      [LS ''C:'' @ [backslash] @ LS ''Users'' @ [backslash] @ LS ''A'' @ [backslash]
         @ LS ''Documents'',
       LS ''C:'' @ [backslash] @ LS ''Projects'']"
    by code_simp
  obtain calls where c: "collectOpenFolderPaths example_environment [] [] =
      Some (real_folders example_environment, [] @ calls)"
    using collectOpenFolderPaths_closed by blast
  obtain opened capture before
    where 0: "reopenFolders [] [] = Some ([] @ concat (map (\<lambda>p. [ShellExecuteW p, Sleep 100]) []))"
      and 1: "collectOpenFolderPaths example_environment [] [] = Some (opened, capture)"
      and 2: "wmain example_environment =
               Some (0, before @ concat (map (\<lambda>p. [ShellExecuteW p, Sleep 100]) opened))"
      and 3: "calls_of Folder_Replay before = []"
    using wmain_replays_captured [of "[]" "[]" example_environment] by blast
  from 1 c r have "opened =
      [LS ''C:'' @ [backslash] @ LS ''Users'' @ [backslash] @ LS ''A'' @ [backslash]
         @ LS ''Documents'',
       LS ''C:'' @ [backslash] @ LS ''Projects'']"
    by simp
  with 0 2 3 show ?thesis by auto
qed

text \<open>
  C2, at the inputs \<^verbatim>\<open>file:///C:/a%+5b\<close> and \<^verbatim>\<open>file:///%-5\<close>. The percent sign is
  followed by a sign and one hexadecimal digit, which is no pair of hexadecimal digits;
  \<^verbatim>\<open>wcstol\<close> accepts \<^verbatim>\<open>+5\<close> and \<^verbatim>\<open>-5\<close> wholly, so the three characters are
  decoded to one character (of code 5, and of code 65531, the low 16 bits of \<open>- 5\<close>)
  where the claim has them copied unchanged.
\<close>

theorem urlToPath_decodes_signed_digit:
  "urlToPath (Some (LS ''file:///C:/a%+5b'')) =
     Some (LS ''C:'' @ [backslash] @ LS ''a'' @ [0x05] @ LS ''b'')
   \<and> urlToPath (Some (LS ''file:///%-5'')) = Some [0xFFFB]"
  by code_simp

text \<open>
  C3. The list the Window Enumerator returns holds, for the indices from 0 up to the
  count of the window collection and in this order, the folder of each window whose
  location identifier is present and decodes to a path that is not empty, and nothing for
  any other window. What the container held before the call is discarded.
\<close>

theorem collectOpenFolderPaths_real_folders:
  "\<exists>calls. collectOpenFolderPaths env out tr = Some (real_folders env, tr @ calls)"
  using collectOpenFolderPaths_closed by blast

theorem collectOpenFolderPaths_real_folders_witness:
  "(\<exists>calls. collectOpenFolderPaths example_environment [LS ''stale''] [] =
       Some ([LS ''C:'' @ [backslash] @ LS ''Users'' @ [backslash] @ LS ''A'' @ [backslash]
                @ LS ''Documents'',
              LS ''C:'' @ [backslash] @ LS ''Projects''], calls))
   \<and> (\<exists>calls. collectOpenFolderPaths virtual_only_environment [] [] = Some ([], calls))"
proof -
  have "real_folders example_environment =
      [LS ''C:'' @ [backslash] @ LS ''Users'' @ [backslash] @ LS ''A'' @ [backslash]
         @ LS ''Documents'',
       LS ''C:'' @ [backslash] @ LS ''Projects'']"
    by code_simp
  moreover have "real_folders virtual_only_environment = []"
    by code_simp
  ultimately show ?thesis
    using collectOpenFolderPaths_real_folders [of example_environment "[LS ''stale'']" "[]"]
      collectOpenFolderPaths_real_folders [of virtual_only_environment "[]" "[]"]
    by simp
qed

text \<open>
  C4. On a process snapshot, the Process Reaper asks to open, with the right to
  terminate, exactly the entries whose executable name equals \<^verbatim>\<open>explorer.exe\<close> up to
  case, once each and in the order of the snapshot; it asks to terminate exactly those of
  them that it could open, once each; no entry with another name is opened or terminated.
\<close>

theorem killAllExplorer_once_per_match:
  assumes "Toolhelp32Snapshot env = Some snap"
  shows "\<exists>calls. killAllExplorer env tr = Some (tr @ calls)
           \<and> opened_pids calls = map th32ProcessID (filter is_explorer snap)
           \<and> terminated_pids calls =
               map th32ProcessID
                 (filter (\<lambda>pe. is_explorer pe \<and> OpenProcess_ok env (th32ProcessID pe)) snap)"
proof -
  have "reaper_calls env =
      [CreateToolhelp32Snapshot, Process32FirstW] @ concat (map (entry_calls env) snap)
        @ [CloseHandle_snap]"
    using assms by (simp add: reaper_calls_def)
  then have "opened_pids (reaper_calls env) = map th32ProcessID (filter is_explorer snap)"
    and "terminated_pids (reaper_calls env) =
               map th32ProcessID
                 (filter (\<lambda>pe. is_explorer pe \<and> OpenProcess_ok env (th32ProcessID pe)) snap)"
    by (simp_all add: opened_pids_append terminated_pids_append opened_pids_snapshot
        terminated_pids_snapshot)
  then show ?thesis
    using killAllExplorer_closed by blast
qed

theorem killAllExplorer_once_per_match_witness:
  "Toolhelp32Snapshot example_environment = Some example_snapshot
   \<and> map th32ProcessID (filter is_explorer example_snapshot) = [1204, 3000]
   \<and> (\<exists>calls. killAllExplorer example_environment [] = Some ([] @ calls)
         \<and> opened_pids calls = [1204, 3000]
         \<and> terminated_pids calls = [1204])"
proof -
  have s: "Toolhelp32Snapshot example_environment = Some example_snapshot"
    by (simp add: example_environment_def)
  have m: "map th32ProcessID (filter is_explorer example_snapshot) = [1204, 3000]"
    by code_simp
  have t: "map th32ProcessID
      (filter (\<lambda>pe. is_explorer pe \<and> OpenProcess_ok example_environment (th32ProcessID pe))
         example_snapshot) = [1204]"
    by code_simp
  show ?thesis
    using killAllExplorer_once_per_match [OF s, of "[]"] s m t by simp
qed

text \<open>
  C5. An identifier that does not begin with the local-file scheme prefix
  \<^verbatim>\<open>file:///\<close>, the null pointer included, is answered with the empty path: the call
  returns (\<open>Some\<close>) and the result is empty.
\<close>

theorem urlToPath_not_local_file:
  assumes "case url of None \<Rightarrow> True | Some s \<Rightarrow> \<not> prefix (LS ''file:///'') s"
  shows "urlToPath url = Some []"
proof (cases url)
  case None
  then show ?thesis by (simp add: urlToPath_None)
next
  case (Some s)
  with assms have "\<not> prefix (LS ''file:///'') s" by simp
  with Some show ?thesis by (simp only: urlToPath_Some if_False)
qed

theorem urlToPath_not_local_file_witness:
  "urlToPath None = Some []
   \<and> urlToPath (Some (LS ''http://example.com/a%20b'')) = Some []
   \<and> urlToPath (Some (LS ''::{20D04FE0-3AEA-1069-A2D8-08002B30309D}'')) = Some []
   \<and> urlToPath (Some (LS ''file:/C:/a'')) = Some []
   \<and> urlToPath (Some []) = Some []"
  using urlToPath_not_local_file [of None]
    urlToPath_not_local_file [of "Some (LS ''http://example.com/a%20b'')"]
    urlToPath_not_local_file [of "Some (LS ''::{20D04FE0-3AEA-1069-A2D8-08002B30309D}'')"]
    urlToPath_not_local_file [of "Some (LS ''file:/C:/a'')"]
    urlToPath_not_local_file [of "Some []"]
  by simp

text \<open>
  C6. Every run consists of the calls of the Window Enumerator, then the calls of one
  run of the Process Reaper on the state the capture left, then the calls of Folder
  Replay; the snapshot of the process table, with which the Process Reaper begins, is
  taken exactly once in the run, whatever the capture returned.
\<close>

theorem wmain_reaper_once:
  "\<exists>capture reaper replay.
     wmain env = Some (0, capture @ reaper @ replay)
     \<and> calls_of Window_Enumerator capture = capture
     \<and> killAllExplorer env capture = Some (capture @ reaper)
     \<and> calls_of Process_Reaper reaper = reaper
     \<and> calls_of Folder_Replay replay = replay
     \<and> count_list (capture @ reaper @ replay) CreateToolhelp32Snapshot = 1"
proof -
  obtain capture where c': "calls_of Window_Enumerator capture = capture"
    and w: "wmain env = Some (0, capture @ reaper_calls env @ replay_calls (real_folders env))"
    using wmain_closed by blast
  let ?replay = "replay_calls (real_folders env)"
  have "count_list capture CreateToolhelp32Snapshot = 0"
    using c' by (rule count_list_other) simp
  moreover have "count_list ?replay CreateToolhelp32Snapshot = 0"
    using calls_of_replay_calls by (rule count_list_other) simp
  ultimately have "count_list (capture @ reaper_calls env @ ?replay) CreateToolhelp32Snapshot = 1"
    by (simp add: count_snapshot_reaper_calls)
  then show ?thesis
    using w c' killAllExplorer_closed calls_of_reaper_calls calls_of_replay_calls by blast
qed

theorem wmain_reaper_once_witness:
  "real_folders virtual_only_environment = []
   \<and> (\<exists>capture reaper replay.
         wmain virtual_only_environment = Some (0, capture @ reaper @ replay)
         \<and> calls_of Window_Enumerator capture = capture
         \<and> killAllExplorer virtual_only_environment capture = Some (capture @ reaper)
         \<and> calls_of Process_Reaper reaper = reaper
         \<and> calls_of Folder_Replay replay = replay
         \<and> count_list (capture @ reaper @ replay) CreateToolhelp32Snapshot = 1)"
proof -
  have "real_folders virtual_only_environment = []"
    by code_simp
  then show ?thesis
    using wmain_reaper_once [of virtual_only_environment] by simp
qed

text \<open>
  C7. Every run returns, and its exit code is 0, whatever the calls to the system
  answered: no window collection, a count or an item that cannot be read, no process
  snapshot, a process that cannot be opened. The graphical entry points report the same
  exit code.
\<close>

theorem wmain_exit_code:
  "\<exists>tr. wmain env = Some (0, tr) \<and> wWinMain env = Some (0, tr) \<and> WinMain env = Some (0, tr)"
  using wmain_closed by (auto simp: wWinMain_def WinMain_def)

theorem wmain_exit_code_witness:
  "(\<exists>tr. wmain example_environment = Some (0, tr))
   \<and> wmain \<lparr> CoInitializeEx_ok = False, ShellWindows = None,
              Toolhelp32Snapshot = None, OpenProcess_ok = (\<lambda>pid. False) \<rparr>
       = Some (0, [CoInitializeEx, CoCreateInstance, CreateToolhelp32Snapshot])"
proof -
  have "wmain \<lparr> CoInitializeEx_ok = False, ShellWindows = None,
              Toolhelp32Snapshot = None, OpenProcess_ok = (\<lambda>pid. False) \<rparr>
       = Some (0, [CoInitializeEx, CoCreateInstance, CreateToolhelp32Snapshot])"
    by (simp add: wmain_def collectOpenFolderPaths_def killAllExplorer_def)
  then show ?thesis
    using wmain_exit_code [of example_environment] by blast
qed

text \<open>
  C8. Let the reserved code units include the percent sign, the segment separator and
  NUL (the code units the decoder interprets). A native path, encoded by the reference
  encoder and decoded by \<^verbatim>\<open>urlToPath\<close>, is reproduced exactly: a path with no reserved
  code unit, and also a path whose reserved code units are bytes, which the encoder writes
  as percent escapes and the decoder turns back into the code units they stand for.
\<close>

theorem urlToPath_roundtrip:
  assumes "reserved (L CHR ''%'')" "reserved (L CHR ''/'')" "reserved 0"
    and "\<forall>c \<in> set path. reserved c \<longrightarrow> unat c < 256"
  shows "urlToPath (Some (encode reserved path)) = Some path"
proof -
  have "urlToPath_loop (concat (map (encode_unit reserved) path)) [] = Some ([] @ path)"
    using assms by (rule urlToPath_loop_encoded)
  then show ?thesis
    unfolding encode_def urlToPath_prefixed by simp
qed

theorem urlToPath_roundtrip_witness:
  "encode (\<lambda>c. c = L CHR ''%'' \<or> c = L CHR ''/'' \<or> c = 0 \<or> c = L CHR '' '')
       (LS ''C:'' @ [backslash] @ LS ''My Docs'' @ [backslash] @ LS ''100%'')
     = LS ''file:///C:/My%20Docs/100%25''
   \<and> urlToPath (Some (LS ''file:///C:/My%20Docs/100%25''))
     = Some (LS ''C:'' @ [backslash] @ LS ''My Docs'' @ [backslash] @ LS ''100%'')
   \<and> encode (\<lambda>c. c = L CHR ''%'' \<or> c = L CHR ''/'' \<or> c = 0 \<or> c = L CHR '' '')
       (LS ''C:'' @ [backslash] @ LS ''Users'' @ [backslash] @ LS ''A'')
     = LS ''file:///C:/Users/A''
   \<and> urlToPath (Some (LS ''file:///C:/Users/A''))
     = Some (LS ''C:'' @ [backslash] @ LS ''Users'' @ [backslash] @ LS ''A'')"
proof -
  let ?reserved = "\<lambda>c :: wchar. c = L CHR ''%'' \<or> c = L CHR ''/'' \<or> c = 0 \<or> c = L CHR '' ''"
  let ?escaped = "LS ''C:'' @ [backslash] @ LS ''My Docs'' @ [backslash] @ LS ''100%''"
  let ?plain = "LS ''C:'' @ [backslash] @ LS ''Users'' @ [backslash] @ LS ''A''"
  have "\<forall>c \<in> set ?escaped. ?reserved c \<longrightarrow> unat c < 256" by simp
  then have 1: "urlToPath (Some (encode ?reserved ?escaped)) = Some ?escaped"
    by (intro urlToPath_roundtrip) simp_all
  have "\<forall>c \<in> set ?plain. ?reserved c \<longrightarrow> unat c < 256" by simp
  then have 2: "urlToPath (Some (encode ?reserved ?plain)) = Some ?plain"
    by (intro urlToPath_roundtrip) simp_all
  have 3: "encode ?reserved ?escaped = LS ''file:///C:/My%20Docs/100%25''"
    by (simp add: encode_def encode_unit_def hex_digit_def)
  have 4: "encode ?reserved ?plain = LS ''file:///C:/Users/A''"
    by (simp add: encode_def encode_unit_def)
  from 1 2 show ?thesis unfolding 3 4 using 3 4 by simp
qed

text \<open>
  C9. \<^verbatim>\<open>urlToPath\<close> returns a value on every input, the null pointer included: neither
  of its loops runs forever, and its only results are paths. Whatever is not a local-file
  identifier is answered with the empty path and in no other way. (That the same input
  gives the same result, and that nothing but the result is produced, holds of every
  function of the logic.)
\<close>

theorem urlToPath_total:
  "\<exists>r. urlToPath url = Some r \<and> (r = [] \<or> (\<exists>s. url = Some s \<and> prefix (LS ''file:///'') s))"
proof (cases url)
  case None
  then show ?thesis by (simp add: urlToPath_None)
next
  case (Some s)
  show ?thesis
  proof (cases "prefix (LS ''file:///'') s")
    case True
    obtain r where "urlToPath_loop (drop 8 s) [] = Some ([] @ r)"
      using urlToPath_loop_appends by blast
    with True have "urlToPath (Some s) = Some r"
      by (simp only: urlToPath_Some if_True append_Nil)
    with Some True show ?thesis by blast
  next
    case False
    then have "urlToPath (Some s) = Some []"
      by (simp only: urlToPath_Some if_False)
    with Some show ?thesis by blast
  qed
qed

text \<open>
  C10. A percent sign followed by two hexadecimal digits, anywhere in the identifier
  after a text \<open>a\<close> with no NUL, yields the one character of that code between the
  decoding of \<open>a\<close> and the decoding of the rest: the character is appended as it is,
  and neither it nor what follows it is read again. So \<^verbatim>\<open>%2F\<close> yields a \<^verbatim>\<open>/\<close>, not
  the native separator, and \<^verbatim>\<open>%252F\<close> yields the text \<^verbatim>\<open>%2F\<close>.
\<close>

theorem urlToPath_single_pass:
  assumes "0 \<notin> set a" "xdigit_value h1 = Some n1" "xdigit_value h2 = Some n2"
  shows "urlToPath (Some (LS ''file:///'' @ a @ [L CHR ''%'', h1, h2] @ rest)) =
         do {
           before \<leftarrow> urlToPath (Some (LS ''file:///'' @ a));
           after \<leftarrow> urlToPath (Some (LS ''file:///'' @ rest));
           Some (before @ [word_of_nat (16 * n1 + n2)] @ after)
         }"
proof -
  obtain x where x: "urlToPath_loop a [] = Some x"
    using urlToPath_loop_appends [of a] by auto
  obtain y where y: "urlToPath_loop rest [] = Some y"
    using urlToPath_loop_appends [of rest] by auto
  have "urlToPath_loop (a @ L CHR ''%'' # h1 # h2 # rest) [] =
        urlToPath_loop (L CHR ''%'' # h1 # h2 # rest) x"
    using urlToPath_loop_before_percent [OF assms(1), of "h1 # h2 # rest" "[]"] x by simp
  also have "\<dots> = urlToPath_loop rest (x @ [word_of_nat (16 * n1 + n2)])"
    using assms(2,3) by (rule urlToPath_loop_percent_hex)
  also have "\<dots> = Some ((x @ [word_of_nat (16 * n1 + n2)]) @ y)"
    using urlToPath_loop_acc [of rest "x @ [word_of_nat (16 * n1 + n2)]"] y by simp
  finally have "urlToPath_loop (a @ [L CHR ''%'', h1, h2] @ rest) [] =
      Some (x @ [word_of_nat (16 * n1 + n2)] @ y)"
    by simp
  then show ?thesis
    unfolding urlToPath_prefixed using x y by simp
qed

theorem urlToPath_single_pass_witness:
  "urlToPath (Some (LS ''file:///%2F'')) = Some (LS ''/'')
   \<and> urlToPath (Some (LS ''file:///%252F'')) = Some (LS ''%2F'')
   \<and> urlToPath (Some (LS ''file:///C:/a%2Fb'')) = Some (LS ''C:'' @ [backslash] @ LS ''a/b'')"
proof -
  have d2: "xdigit_value (L CHR ''2'') = Some 2" and d5: "xdigit_value (L CHR ''5'') = Some 5"
    and dF: "xdigit_value (L CHR ''F'') = Some 15"
    by (simp_all add: xdigit_value_def)
  have e0: "urlToPath (Some (LS ''file:///'' @ [])) = Some []"
    and e1: "urlToPath (Some (LS ''file:///'' @ LS ''2F'')) = Some (LS ''2F'')"
    and e2: "urlToPath (Some (LS ''file:///'' @ LS ''C:/a'')) = Some (LS ''C:'' @ [backslash] @ LS ''a'')"
    and e3: "urlToPath (Some (LS ''file:///'' @ LS ''b'')) = Some (LS ''b'')"
    by code_simp+
  have "urlToPath (Some (LS ''file:///'' @ [] @ [L CHR ''%'', L CHR ''2'', L CHR ''F''] @ [])) =
      Some (LS ''/'')"
    using urlToPath_single_pass [OF _ d2 dF, of "[]" "[]"] e0 by simp
  moreover
  have "urlToPath (Some (LS ''file:///'' @ [] @ [L CHR ''%'', L CHR ''2'', L CHR ''5''] @ LS ''2F'')) =
      Some (LS ''%2F'')"
    using urlToPath_single_pass [OF _ d2 d5, of "[]" "LS ''2F''"] e0 e1 by simp
  moreover
  have "urlToPath (Some (LS ''file:///'' @ LS ''C:/a'' @ [L CHR ''%'', L CHR ''2'', L CHR ''F'']
          @ LS ''b'')) = Some (LS ''C:'' @ [backslash] @ LS ''a/b'')"
    using urlToPath_single_pass [OF _ d2 dF, of "LS ''C:/a''" "LS ''b''"] e2 e3 by simp
  ultimately show ?thesis by simp
qed

end
